theory Spec2Isabelle
  imports Main "HOL-Library.Word"
begin

unbundle bit_operations_syntax

section \<open>The data model of \<open>dynamic_bitset.hh\<close>\<close>

text \<open>
  The class \<open>dynamic_bitset\<close> has two private members: \<open>size_t _num_bits{0}\<close> and
  \<open>std::vector<uint8_t> _data\<close>. \<open>size_t\<close> is taken as 64 bits wide (an LP64 platform),
  \<open>uint8_t\<close> and \<open>uint32_t\<close> are 8 and 32 bits wide; all three are unsigned and wrap.
  The vector is a list of bytes. Memory exhaustion in \<open>std::vector::resize\<close> is not
  modelled.
\<close>

type_synonym size_t = "64 word"
type_synonym uint8_t = "8 word"
type_synonym uint32_t = "32 word"

record bitset =
  num_bits :: size_t
  data :: "uint8_t list"

text \<open>
  \<open>std::vector::operator[]\<close> does not check its index: with an index that is not below
  \<open>size()\<close> the behaviour of the C++ program is undefined. The model makes that case a
  value of its own, \<open>UndefinedBehaviour\<close>, so that no theorem can rest on what an
  out-of-bounds access yields. \<open>IndexOutOfRange\<close> is the one error of the
  specification's error taxonomy; the source has no statement that raises it, and so no
  definition below returns it.
\<close>

datatype error = UndefinedBehaviour | IndexOutOfRange

definition vector_at :: "uint8_t list \<Rightarrow> size_t \<Rightarrow> error + uint8_t" where
  "vector_at xs i = (if unat i < length xs then Inr (xs ! unat i) else Inl UndefinedBehaviour)"

text \<open>
  \<open>std::vector::resize(n)\<close>: the first \<open>n\<close> elements are kept, and the vector is padded
  with value-initialised (zero) bytes up to length \<open>n\<close>.
\<close>

definition vector_resize :: "uint8_t list \<Rightarrow> nat \<Rightarrow> uint8_t list" where
  "vector_resize xs n = take n xs @ replicate (n - length xs) 0"

text \<open>
  \<open>std::fill_n(first, n, v)\<close> assigns \<open>v\<close> to the first \<open>n\<close> elements; both callers pass
  \<open>n = _data.size()\<close>.
\<close>

definition fill_n :: "uint8_t list \<Rightarrow> nat \<Rightarrow> uint8_t \<Rightarrow> uint8_t list" where
  "fill_n xs n v = replicate n v @ drop n xs"

section \<open>The operations\<close>

text \<open>\<open>dynamic_bitset() = default\<close>: the member initialisers only.\<close>

definition dynamic_bitset_default :: bitset where
  "dynamic_bitset_default = \<lparr>num_bits = 0, data = []\<rparr>"

text \<open>
  The local \<open>num_words\<close>, computed by the same five lines in the constructor and in
  \<open>resize\<close>.
\<close>

definition num_words :: "size_t \<Rightarrow> size_t" where
  "num_words nbits = (if nbits < 8 then 1 else 1 + (nbits - 8) div 8)"

definition dynamic_bitset :: "size_t \<Rightarrow> bitset" where
  "dynamic_bitset nbits =
     (let d = vector_resize [] (unat (num_words nbits))
      in \<lparr>num_bits = nbits, data = fill_n d (length d) 0\<rparr>)"

definition resize :: "bitset \<Rightarrow> size_t \<Rightarrow> bitset" where
  "resize s nbits =
     s\<lparr>num_bits := nbits, data := vector_resize (data s) (unat (num_words nbits))\<rparr>"

definition reset :: "bitset \<Rightarrow> bitset" where
  "reset s = s\<lparr>data := fill_n (data s) (length (data s)) 0\<rparr>"

text \<open>
  \<open>operator[]\<close>: the byte is promoted to \<open>int\<close>, shifted right by \<open>offset\<close> and masked
  with 1; the result converts to \<open>bool\<close>.
\<close>

definition get :: "bitset \<Rightarrow> size_t \<Rightarrow> error + bool" where
  "get s pos =
     (let byte_loc = pos div 8;
          offset = pos mod 8
      in case vector_at (data s) byte_loc of
           Inl e \<Rightarrow> Inl e
         | Inr b \<Rightarrow> Inr (drop_bit (unat offset) (uint b) AND 1 \<noteq> 0))"

text \<open>
  \<open>set\<close>: \<open>offset\<close> is narrowed to \<open>uint8_t\<close>, \<open>1 << offset\<close> is computed on \<open>int\<close> and
  narrowed to \<open>uint8_t\<close>; \<open>|=\<close> and \<open>&= ~\<close> work on the promoted \<open>int\<close> values and narrow
  the result back to a byte.
\<close>

definition set_bs :: "bitset \<Rightarrow> size_t \<Rightarrow> bool \<Rightarrow> error + bitset" where
  "set_bs s pos val =
     (let byte_loc = pos div 8;
          offset = (ucast (pos mod 8) :: uint8_t);
          bitfield = (word_of_int (push_bit (unat offset) 1) :: uint8_t)
      in case vector_at (data s) byte_loc of
           Inl e \<Rightarrow> Inl e
         | Inr b \<Rightarrow>
             Inr (s\<lparr>data := (data s)[unat byte_loc :=
                    (if val then word_of_int (uint b OR uint bitfield)
                     else word_of_int (uint b AND NOT (uint bitfield)))]\<rparr>))"

text \<open>
  The loop of \<open>count\<close>, from the state \<open>(i, c)\<close>: \<open>i\<close> is a \<open>size_t\<close>, the counter \<open>c\<close> a
  \<open>uint32_t\<close>.
\<close>

function count_loop :: "bitset \<Rightarrow> size_t \<Rightarrow> uint32_t \<Rightarrow> error + uint32_t" where
  "count_loop s i c =
     (if i < num_bits s then
        (case get s i of
           Inl e \<Rightarrow> Inl e
         | Inr b \<Rightarrow> count_loop s (i + 1) (c + (if b then 1 else 0)))
      else Inr c)"
  by pat_completeness auto
termination
proof (relation "measure (\<lambda>(s, i, c). unat (num_bits s) - unat i)")
  fix s :: bitset and i :: size_t and c :: uint32_t and b :: bool
  assume "i < num_bits s"
  then have "unat (num_bits s) - unat (i + 1) < unat (num_bits s) - unat i"
    by unat_arith
  then show "((s, i + 1, c + (if b then 1 else 0)), (s, i, c))
      \<in> measure (\<lambda>(s, i, c). unat (num_bits s) - unat i)"
    by simp
qed simp

declare count_loop.simps [simp del]

definition count :: "bitset \<Rightarrow> error + uint32_t" where
  "count s = count_loop s 0 0"

text \<open>The loop of \<open>to_string\<close>, from the state \<open>(i, ss)\<close>.\<close>

function to_string_loop :: "bitset \<Rightarrow> size_t \<Rightarrow> string \<Rightarrow> error + string" where
  "to_string_loop s i ss =
     (if i < num_bits s then
        (case get s (num_bits s - i - 1) of
           Inl e \<Rightarrow> Inl e
         | Inr b \<Rightarrow> to_string_loop s (i + 1) (ss @ (if b then ''1'' else ''0'')))
      else Inr ss)"
  by pat_completeness auto
termination
proof (relation "measure (\<lambda>(s, i, ss). unat (num_bits s) - unat i)")
  fix s :: bitset and i :: size_t and ss :: string and b :: bool
  assume "i < num_bits s"
  then have "unat (num_bits s) - unat (i + 1) < unat (num_bits s) - unat i"
    by unat_arith
  then show "((s, i + 1, ss @ (if b then ''1'' else ''0'')), (s, i, ss))
      \<in> measure (\<lambda>(s, i, ss). unat (num_bits s) - unat i)"
    by simp
qed simp

declare to_string_loop.simps [simp del]

definition to_string :: "bitset \<Rightarrow> error + string" where
  "to_string s = to_string_loop s 0 []"

section \<open>The storage invariant of the specification\<close>

text \<open>
  The specification's formula for the storage length, in its own words, on natural
  numbers: \<open>number_of_bytes_needed(n) = 1 if n < 8 else 1 + floor((n - 8) / 8)\<close>.
\<close>

definition number_of_bytes_needed :: "nat \<Rightarrow> nat" where
  "number_of_bytes_needed n = (if n < 8 then 1 else 1 + (n - 8) div 8)"

definition storage_invariant :: "bitset \<Rightarrow> bool" where
  "storage_invariant s \<longleftrightarrow> length (data s) = number_of_bytes_needed (unat (num_bits s))"

text \<open>
  The states a caller can produce: the two constructors, then \<open>resize\<close>, \<open>reset\<close> and
  every \<open>set\<close> whose access stays inside the storage.
\<close>

inductive reachable :: "bitset \<Rightarrow> bool" where
  default: "reachable dynamic_bitset_default"
| construct: "reachable (dynamic_bitset nbits)"
| resize: "reachable s \<Longrightarrow> reachable (resize s nbits)"
| reset: "reachable s \<Longrightarrow> reachable (reset s)"
| set: "reachable s \<Longrightarrow> set_bs s pos val = Inr s' \<Longrightarrow> reachable s'"

text \<open>
  Two notions for stating what the loops compute: the bit that position \<open>j\<close> denotes in
  the storage, and the states whose storage has a byte for every position below
  \<open>_num_bits\<close>.
\<close>

definition bit_at :: "bitset \<Rightarrow> nat \<Rightarrow> bool" where
  "bit_at s j = bit (data s ! (j div 8)) (j mod 8)"

definition storage_covers_bits :: "bitset \<Rightarrow> bool" where
  "storage_covers_bits s \<longleftrightarrow> unat (num_bits s) \<le> 8 * length (data s)"

section \<open>The bit arithmetic of \<open>operator[]\<close> and \<open>set\<close>\<close>

text \<open>
  The integer promotions of C++ do not change the result on a byte: reading bit \<open>k\<close>
  through shift and mask is \<open>bit b k\<close>, and the two updates are the bytewise ones.
\<close>

lemma shift_mask_bit: "(drop_bit k (uint (b :: uint8_t)) AND 1 \<noteq> 0) = bit b k"
proof -
  have "bit b k = bit (uint b) k"
    by (auto simp add: bit_uint_iff dest: bit_imp_le_length)
  also have "\<dots> = odd (drop_bit k (uint b))"
    by (rule bit_iff_odd_drop_bit)
  finally have "bit b k = odd (drop_bit k (uint b))" .
  then show ?thesis
    by (simp add: and_one_eq odd_iff_mod_2_eq_one)
qed

lemma unat_offset: "unat (ucast ((pos :: size_t) mod 8) :: uint8_t) = unat pos mod 8"
proof -
  have "unat (pos mod 8) = unat pos mod 8"
    by (simp add: unat_mod)
  moreover have "unat pos mod 8 < 2 ^ 8"
    by (rule less_trans [of _ 8]) simp_all
  ultimately show ?thesis
    by (simp add: unsigned_ucast_eq take_bit_nat_eq_self)
qed

lemma bitfield_word: "(word_of_int (push_bit k 1) :: uint8_t) = push_bit k 1"
  by (simp add: word_of_int_2p)

lemma or_narrow: "(word_of_int (uint (b :: uint8_t) OR uint (m :: uint8_t)) :: uint8_t) = b OR m"
  by (rule bit_word_eqI) (simp add: bit_simps)

lemma and_not_narrow:
  "(word_of_int (uint (b :: uint8_t) AND NOT (uint (m :: uint8_t))) :: uint8_t) = b AND NOT m"
  by (rule bit_word_eqI) (simp add: bit_simps)

lemma get_eq:
  "get s pos =
    (if unat pos div 8 < length (data s)
     then Inr (bit (data s ! (unat pos div 8)) (unat pos mod 8))
     else Inl UndefinedBehaviour)"
  by (simp add: get_def vector_at_def Let_def shift_mask_bit unat_div unat_mod)

lemma set_bs_eq:
  "set_bs s pos v =
    (if unat pos div 8 < length (data s)
     then Inr (s\<lparr>data := (data s)[unat pos div 8 :=
            (if v then data s ! (unat pos div 8) OR push_bit (unat pos mod 8) 1
             else data s ! (unat pos div 8) AND NOT (push_bit (unat pos mod 8) 1))]\<rparr>)
     else Inl UndefinedBehaviour)"
  by (simp add: set_bs_def vector_at_def Let_def unat_offset bitfield_word or_narrow
      and_not_narrow unat_div)

lemma unat_split8:
  "unat (j :: size_t) div 8 = unat pos div 8 \<Longrightarrow> unat j mod 8 = unat pos mod 8 \<Longrightarrow> j = pos"
  by (metis div_mult_mod_eq word_unat_eq_iff)

section \<open>Storage sizes\<close>

text \<open>
  Claim C1. The claim says that the constructor allocates 1, 1, 2, 2 and 3 bytes for
  7, 8, 9, 16 and 17 bits. Evaluating the constructor gives 1, 1, 1, 2 and 2 bytes:
  \<open>1 + (nbits - 8) / 8\<close> rounds down, so 9 bits get one byte and 17 bits get two.
\<close>

theorem construct_sizes:
  "map (\<lambda>n. length (data (dynamic_bitset n))) [7, 8, 9, 16, 17] = [1, 1, 1, 2, 2]"
  by (simp add: dynamic_bitset_def num_words_def vector_resize_def fill_n_def)

text \<open>The word count of the code is the specification's formula.\<close>

lemma unat_num_words: "unat (num_words nbits) = number_of_bytes_needed (unat nbits)"
proof (cases "nbits < 8")
  case True
  then show ?thesis
    by (simp add: num_words_def number_of_bytes_needed_def word_less_nat_alt)
next
  case False
  then have ge: "8 \<le> unat nbits"
    by (simp add: word_less_nat_alt)
  have "unat (1 + (nbits - 8) div 8) = 1 + (unat nbits - 8) div 8"
    using ge by unat_arith
  with False ge show ?thesis
    by (simp add: num_words_def number_of_bytes_needed_def)
qed

lemma length_vector_resize: "length (vector_resize xs n) = n"
  by (simp add: vector_resize_def)

lemma length_fill_n: "n \<le> length xs \<Longrightarrow> length (fill_n xs n v) = length xs"
  by (simp add: fill_n_def)

lemma invariant_construct: "storage_invariant (dynamic_bitset nbits)"
  by (simp add: storage_invariant_def dynamic_bitset_def Let_def length_fill_n
      length_vector_resize unat_num_words)

lemma invariant_resize: "storage_invariant (resize s nbits)"
  by (simp add: storage_invariant_def resize_def length_vector_resize unat_num_words)

lemma reset_default: "reset dynamic_bitset_default = dynamic_bitset_default"
  by (simp add: reset_def dynamic_bitset_default_def fill_n_def)

lemma invariant_reset: "storage_invariant s \<Longrightarrow> storage_invariant (reset s)"
  by (simp add: storage_invariant_def reset_def length_fill_n)

lemma set_bs_default: "set_bs dynamic_bitset_default pos val = Inl UndefinedBehaviour"
  by (simp add: set_bs_eq dynamic_bitset_default_def)

lemma invariant_set_bs: "storage_invariant s \<Longrightarrow> set_bs s pos val = Inr s' \<Longrightarrow> storage_invariant s'"
  by (auto simp add: storage_invariant_def set_bs_eq split: if_splits)

text \<open>
  Claim C2, as stated, fails at the default-constructed bitset: it is reachable, has
  \<open>_num_bits = 0\<close> and an empty vector, while the formula asks for one byte.
\<close>

theorem default_breaks_invariant:
  "reachable dynamic_bitset_default \<and> num_bits dynamic_bitset_default = 0
   \<and> length (data dynamic_bitset_default) = 0
   \<and> number_of_bytes_needed (unat (num_bits dynamic_bitset_default)) = 1
   \<and> \<not> storage_invariant dynamic_bitset_default"
proof -
  have "\<not> storage_invariant dynamic_bitset_default"
    by (simp add: dynamic_bitset_default_def storage_invariant_def number_of_bytes_needed_def)
  moreover have "number_of_bytes_needed (unat (num_bits dynamic_bitset_default)) = 1"
    by (simp add: dynamic_bitset_default_def number_of_bytes_needed_def)
  moreover have "num_bits dynamic_bitset_default = 0 \<and> length (data dynamic_bitset_default) = 0"
    by (simp add: dynamic_bitset_default_def)
  ultimately show ?thesis
    using reachable.default by simp
qed

text \<open>
  Claim C2, amended. Every reachable state other than the default-constructed one
  satisfies \<open>storage.length = number_of_bytes_needed(bit_count)\<close>: the constructor with
  a size and \<open>resize\<close> establish it, \<open>reset\<close> and \<open>set\<close> keep the length, and on the
  default-constructed bitset \<open>reset\<close> changes nothing and every \<open>set\<close> is out of bounds.
\<close>

theorem reachable_storage_invariant:
  "reachable s \<Longrightarrow> s = dynamic_bitset_default \<or> storage_invariant s"
proof (induction rule: reachable.induct)
  case default
  show ?case by simp
next
  case (construct nbits)
  show ?case by (simp add: invariant_construct)
next
  case (resize s nbits)
  show ?case by (simp add: invariant_resize)
next
  case (reset s)
  then show ?case by (auto simp add: reset_default invariant_reset)
next
  case (set s pos val s')
  then show ?case by (auto simp add: set_bs_default invariant_set_bs)
qed

theorem reachable_storage_invariant_witness:
  "reachable (reset (resize dynamic_bitset_default 9))
   \<and> storage_invariant (reset (resize dynamic_bitset_default 9))
   \<and> length (data (reset (resize dynamic_bitset_default 9))) = 1"
proof -
  have r: "reachable (reset (resize dynamic_bitset_default 9))"
    by (intro reachable.reset reachable.resize reachable.default)
  have ne: "reset (resize dynamic_bitset_default 9) \<noteq> dynamic_bitset_default"
    by (simp add: reset_def resize_def dynamic_bitset_default_def)
  have "length (data (reset (resize dynamic_bitset_default 9))) = 1"
    by (simp add: reset_def resize_def dynamic_bitset_default_def num_words_def
        vector_resize_def fill_n_def)
  with r ne reachable_storage_invariant [OF r] show ?thesis
    by simp
qed

section \<open>Reading and writing one bit\<close>

lemma length_set_bs: "set_bs s pos val = Inr s' \<Longrightarrow> length (data s') = length (data s)"
  by (auto simp add: set_bs_eq split: if_splits)

lemma get_set_bs_same:
  "set_bs s pos val = Inr s' \<Longrightarrow> get s' pos = Inr val"
  by (auto simp add: set_bs_eq get_eq bit_simps split: if_splits)

lemma get_set_bs_other:
  assumes "set_bs s pos val = Inr s'" and "j \<noteq> pos"
  shows "get s' j = get s j"
proof (cases "unat j div 8 = unat pos div 8")
  case True
  with assms(2) have "unat j mod 8 \<noteq> unat pos mod 8"
    using unat_split8 by blast
  with assms(1) True show ?thesis
    by (auto simp add: set_bs_eq get_eq bit_simps split: if_splits)
next
  case False
  with assms(1) show ?thesis
    by (auto simp add: set_bs_eq get_eq split: if_splits)
qed

text \<open>
  Claim C3. For every position \<open>pos\<close> whose byte index \<open>pos / 8\<close> is inside the storage:
  \<open>set(pos, true)\<close> succeeds and \<open>operator[](pos)\<close> is then true; a following
  \<open>set(pos, false)\<close> succeeds and \<open>operator[](pos)\<close> is then false; and \<open>set(pos, v)\<close>
  leaves the outcome of \<open>operator[](j)\<close> as it was for every \<open>j\<close> other than \<open>pos\<close>, in the
  same byte or in another one.
\<close>

theorem set_get_roundtrip:
  assumes "unat (pos div 8) < length (data s)"
  shows "(\<exists>s1 s2. set_bs s pos True = Inr s1 \<and> get s1 pos = Inr True
            \<and> set_bs s1 pos False = Inr s2 \<and> get s2 pos = Inr False)
       \<and> (\<exists>s'. set_bs s pos v = Inr s' \<and> (\<forall>j. j \<noteq> pos \<longrightarrow> get s' j = get s j))"
proof -
  from assms have r: "unat pos div 8 < length (data s)"
    by (simp add: unat_div)
  then obtain s1 where s1: "set_bs s pos True = Inr s1"
    by (simp add: set_bs_eq)
  then have "unat pos div 8 < length (data s1)"
    using r by (simp add: length_set_bs)
  then obtain s2 where s2: "set_bs s1 pos False = Inr s2"
    by (simp add: set_bs_eq)
  from r obtain s' where s': "set_bs s pos v = Inr s'"
    by (simp add: set_bs_eq)
  from s1 s2 have "get s1 pos = Inr True" and "get s2 pos = Inr False"
    by (simp_all add: get_set_bs_same)
  with s1 s2 s' show ?thesis
    by (auto simp add: get_set_bs_other)
qed

theorem set_get_roundtrip_witness:
  "unat ((10 :: size_t) div 8) < length (data (dynamic_bitset 16))
   \<and> (\<exists>s1 s2. set_bs (dynamic_bitset 16) 10 True = Inr s1 \<and> get s1 10 = Inr True
          \<and> set_bs s1 10 False = Inr s2 \<and> get s2 10 = Inr False)
   \<and> (\<exists>s'. set_bs (dynamic_bitset 16) 10 True = Inr s'
          \<and> get s' 11 = get (dynamic_bitset 16) 11 \<and> get s' 3 = get (dynamic_bitset 16) 3)"
proof -
  have h: "unat ((10 :: size_t) div 8) < length (data (dynamic_bitset 16))"
    by (simp add: dynamic_bitset_def num_words_def vector_resize_def fill_n_def)
  from set_get_roundtrip [OF h, of True] h show ?thesis
    by fastforce
qed

text \<open>
  Claim C9, as stated, fails on \<open>dynamic_bitset(0)\<close> at position 8: the byte index 1 is
  not a valid index into the one byte of storage, and neither \<open>operator[]\<close> nor \<open>set\<close>
  fails with an \<open>IndexOutOfRange\<close> error there. Both index \<open>_data\<close> without a check, and
  the behaviour is undefined.
\<close>

theorem out_of_range_raises_no_error:
  "length (data (dynamic_bitset 0)) \<le> unat ((8 :: size_t) div 8)
   \<and> get (dynamic_bitset 0) 8 \<noteq> Inl IndexOutOfRange
   \<and> get (dynamic_bitset 0) 8 = Inl UndefinedBehaviour
   \<and> set_bs (dynamic_bitset 0) 8 True \<noteq> Inl IndexOutOfRange
   \<and> set_bs (dynamic_bitset 0) 8 True = Inl UndefinedBehaviour"
  by (simp add: get_eq set_bs_eq dynamic_bitset_def num_words_def vector_resize_def fill_n_def)

text \<open>
  Claim C9, amended. \<open>operator[](pos)\<close> and \<open>set(pos, value)\<close> check nothing and raise no
  error. They access the storage inside its bounds, and return, exactly when the byte
  index \<open>pos / 8\<close> is below the length of the storage; exactly when it is not, the access
  is outside the storage and the behaviour is undefined, with nothing said about the
  result or the state.
\<close>

theorem access_in_storage_iff:
  "((\<exists>b. get s pos = Inr b) \<longleftrightarrow> unat (pos div 8) < length (data s))
   \<and> (get s pos = Inl UndefinedBehaviour \<longleftrightarrow> length (data s) \<le> unat (pos div 8))
   \<and> ((\<exists>s'. set_bs s pos val = Inr s') \<longleftrightarrow> unat (pos div 8) < length (data s))
   \<and> (set_bs s pos val = Inl UndefinedBehaviour \<longleftrightarrow> length (data s) \<le> unat (pos div 8))
   \<and> get s pos \<noteq> Inl IndexOutOfRange
   \<and> set_bs s pos val \<noteq> Inl IndexOutOfRange"
  by (simp add: get_eq set_bs_eq unat_div)

text \<open>
  Claim C10. \<open>dynamic_bitset(0)\<close> has \<open>_num_bits = 0\<close> and one zero byte of storage, so
  for every position below 8 \<open>operator[]\<close> succeeds and returns false, and \<open>set\<close>
  succeeds with either value.
\<close>

theorem construct_zero:
  "data (dynamic_bitset 0) = [0] \<and> num_bits (dynamic_bitset 0) = 0
   \<and> (\<forall>pos < 8. get (dynamic_bitset 0) pos = Inr False)
   \<and> (\<forall>pos < 8. \<forall>val. \<exists>s'. set_bs (dynamic_bitset 0) pos val = Inr s')"
proof -
  have d: "dynamic_bitset 0 = \<lparr>num_bits = 0, data = [0]\<rparr>"
    by (simp add: dynamic_bitset_def num_words_def vector_resize_def fill_n_def)
  have "unat pos div 8 = 0" if "pos < 8" for pos :: size_t
    using that by (simp add: word_less_nat_alt)
  then show ?thesis
    by (simp add: d get_eq set_bs_eq)
qed

theorem construct_zero_witness:
  "(5 :: size_t) < 8 \<and> get (dynamic_bitset 0) 5 = Inr False
   \<and> (\<exists>s'. set_bs (dynamic_bitset 0) 5 True = Inr s')"
proof -
  have h: "(5 :: size_t) < 8" by simp
  with construct_zero show ?thesis
    by blast
qed

section \<open>Resizing\<close>

lemma vector_resize_nth_old:
  "i < length xs \<Longrightarrow> i < n \<Longrightarrow> vector_resize xs n ! i = xs ! i"
  by (simp add: vector_resize_def nth_append)

lemma vector_resize_nth_new:
  "length xs \<le> i \<Longrightarrow> i < n \<Longrightarrow> vector_resize xs n ! i = 0"
  by (simp add: vector_resize_def nth_append)

lemma vector_resize_shrink: "n \<le> length xs \<Longrightarrow> vector_resize xs n = take n xs"
  by (simp add: vector_resize_def)

text \<open>
  Claim C8. \<open>resize(nbits)\<close> sets \<open>_num_bits\<close> to \<open>nbits\<close> and the storage to \<open>num_words\<close>
  bytes; a byte whose index is valid before and after keeps its content, a byte beyond
  the old length is zero, and shrinking keeps the leading bytes only. In particular,
  after \<open>dynamic_bitset(4)\<close>, \<open>set(2, true)\<close> and \<open>resize(20)\<close>, \<open>operator[](2)\<close> is true.
\<close>

theorem resize_frame:
  "num_bits (resize s nbits) = nbits
   \<and> length (data (resize s nbits)) = unat (num_words nbits)
   \<and> (\<forall>i. i < length (data s) \<and> i < unat (num_words nbits)
          \<longrightarrow> data (resize s nbits) ! i = data s ! i)
   \<and> (\<forall>i. length (data s) \<le> i \<and> i < unat (num_words nbits)
          \<longrightarrow> data (resize s nbits) ! i = 0)
   \<and> (unat (num_words nbits) \<le> length (data s)
          \<longrightarrow> data (resize s nbits) = take (unat (num_words nbits)) (data s))
   \<and> (\<exists>s1. set_bs (dynamic_bitset 4) 2 True = Inr s1 \<and> get (resize s1 20) 2 = Inr True)"
proof -
  have "\<exists>s1. set_bs (dynamic_bitset 4) 2 True = Inr s1 \<and> get (resize s1 20) 2 = Inr True"
    by (simp add: set_bs_eq get_eq resize_def dynamic_bitset_def num_words_def
        vector_resize_def fill_n_def)
  then show ?thesis
    by (simp add: resize_def length_vector_resize vector_resize_nth_old
        vector_resize_nth_new vector_resize_shrink)
qed

theorem resize_frame_witness:
  "1 < length (data \<lparr>num_bits = 16, data = [0, 2]\<rparr>) \<and> 1 < unat (num_words 32)
   \<and> data (resize \<lparr>num_bits = 16, data = [0, 2]\<rparr> 32) ! 1 = 2
   \<and> length (data \<lparr>num_bits = 16, data = [0, 2]\<rparr>) \<le> 3 \<and> 3 < unat (num_words 32)
   \<and> data (resize \<lparr>num_bits = 16, data = [0, 2]\<rparr> 32) ! 3 = 0
   \<and> unat (num_words 8) \<le> length (data \<lparr>num_bits = 16, data = [0, 2]\<rparr>)
   \<and> data (resize \<lparr>num_bits = 16, data = [0, 2]\<rparr> 8) = [0]
   \<and> num_bits (resize \<lparr>num_bits = 16, data = [0, 2]\<rparr> 8) = 8"
proof -
  have n: "unat (num_words 32) = 4" "unat (num_words 8) = 1"
    by (simp_all add: num_words_def)
  from resize_frame [of "\<lparr>num_bits = 16, data = [0, 2]\<rparr>" 32]
    resize_frame [of "\<lparr>num_bits = 16, data = [0, 2]\<rparr>" 8] n
  show ?thesis
    by simp
qed

section \<open>The loops over all positions\<close>

text \<open>
  When the storage has a byte for every position below \<open>_num_bits\<close>, no read of the two
  loops is out of bounds: \<open>count\<close> returns the number of set positions, as far as a
  \<open>uint32_t\<close> holds it, and \<open>to_string\<close> returns one character for each position, the
  highest position first.
\<close>

lemma get_covered:
  assumes "storage_covers_bits s" and "i < num_bits s"
  shows "get s i = Inr (bit_at s (unat i))"
proof -
  from assms have "unat i < 8 * length (data s)"
    by (simp add: storage_covers_bits_def word_less_nat_alt)
  then have "unat i div 8 < length (data s)"
    by (simp add: less_mult_imp_div_less mult.commute)
  then show ?thesis
    by (simp add: get_eq bit_at_def)
qed

lemma unat_succ_below: "(i :: size_t) < n \<Longrightarrow> unat (i + 1) = Suc (unat i)"
  by unat_arith

lemma count_loop_covered:
  "storage_covers_bits s \<Longrightarrow>
   count_loop s i c = Inr (c + of_nat (length (filter (bit_at s) [unat i..<unat (num_bits s)])))"
proof (induction s i c rule: count_loop.induct)
  case (1 s i c)
  show ?case
  proof (cases "i < num_bits s")
    case True
    then have lt: "unat i < unat (num_bits s)"
      by (simp add: word_less_nat_alt)
    have g: "get s i = Inr (bit_at s (unat i))"
      using "1.prems" True by (rule get_covered)
    have "count_loop s i c = count_loop s (i + 1) (c + (if bit_at s (unat i) then 1 else 0))"
      using True g by (subst count_loop.simps) simp
    also have "\<dots> = Inr (c + (if bit_at s (unat i) then 1 else 0)
        + of_nat (length (filter (bit_at s) [unat (i + 1)..<unat (num_bits s)])))"
      using True g "1.prems" by (intro "1.IH") simp_all
    also have "\<dots> = Inr (c + of_nat (length (filter (bit_at s) [unat i..<unat (num_bits s)])))"
      using lt by (simp add: unat_succ_below [OF True] upt_conv_Cons)
    finally show ?thesis .
  next
    case False
    then have "unat (num_bits s) \<le> unat i"
      by (simp add: word_less_nat_alt)
    with False show ?thesis
      by (subst count_loop.simps) simp
  qed
qed

lemma count_covered:
  "storage_covers_bits s \<Longrightarrow>
   count s = Inr (of_nat (length (filter (bit_at s) [0..<unat (num_bits s)])))"
  by (simp add: count_def count_loop_covered)


lemma to_string_loop_covered:
  "storage_covers_bits s \<Longrightarrow>
   to_string_loop s i ss =
     Inr (ss @ map (\<lambda>k. if bit_at s (unat (num_bits s) - k - 1) then CHR ''1'' else CHR ''0'')
                 [unat i..<unat (num_bits s)])"
proof (induction s i ss rule: to_string_loop.induct)
  case (1 s i ss)
  show ?case
  proof (cases "i < num_bits s")
    case True
    then have lt: "unat i < unat (num_bits s)"
      by (simp add: word_less_nat_alt)
    from True have p: "unat (num_bits s - i - 1) = unat (num_bits s) - unat i - 1"
      by unat_arith
    from True have "num_bits s - i - 1 < num_bits s"
      by unat_arith
    with "1.prems" have g: "get s (num_bits s - i - 1) = Inr (bit_at s (unat (num_bits s) - unat i - 1))"
      by (simp add: get_covered p)
    have "to_string_loop s i ss =
        to_string_loop s (i + 1)
          (ss @ (if bit_at s (unat (num_bits s) - unat i - 1) then ''1'' else ''0''))"
      using True g by (subst to_string_loop.simps) simp
    also have "\<dots> =
        Inr ((ss @ (if bit_at s (unat (num_bits s) - unat i - 1) then ''1'' else ''0''))
          @ map (\<lambda>k. if bit_at s (unat (num_bits s) - k - 1) then CHR ''1'' else CHR ''0'')
              [unat (i + 1)..<unat (num_bits s)])"
      using True g "1.prems" by (intro "1.IH") simp_all
    also have "\<dots> =
        Inr (ss @ map (\<lambda>k. if bit_at s (unat (num_bits s) - k - 1) then CHR ''1'' else CHR ''0'')
              [unat i..<unat (num_bits s)])"
      using lt by (simp add: unat_succ_below [OF True] upt_conv_Cons)
    finally show ?thesis .
  next
    case False
    then have "unat (num_bits s) \<le> unat i"
      by (simp add: word_less_nat_alt)
    with False show ?thesis
      by (subst to_string_loop.simps) simp
  qed
qed

lemma to_string_covered:
  "storage_covers_bits s \<Longrightarrow>
   to_string s =
     Inr (map (\<lambda>k. if bit_at s (unat (num_bits s) - k - 1) then CHR ''1'' else CHR ''0'')
            [0..<unat (num_bits s)])"
  by (simp add: to_string_def to_string_loop_covered)

text \<open>
  The counter is a \<open>uint32_t\<close> while the loop index is a \<open>size_t\<close>: with 2^32 bits, all
  set, the counter wraps around to 0.
\<close>

lemma count_all_ones:
  assumes "unat n \<le> 8 * k"
  shows "count \<lparr>num_bits = n, data = replicate k 255\<rparr> = Inr (of_nat (unat n))"
proof -
  let ?s = "\<lparr>num_bits = n, data = replicate k 255\<rparr>"
  have c: "storage_covers_bits ?s"
    using assms by (simp add: storage_covers_bits_def)
  have ones: "(255 :: uint8_t) = - 1"
    by simp
  have "bit_at ?s j" if "j < unat n" for j
  proof -
    from that assms have "j div 8 < k"
      by (simp add: less_mult_imp_div_less mult.commute)
    moreover have "j mod 8 < 8"
      by simp
    ultimately show ?thesis
      unfolding bit_at_def by (simp only: bitset.simps nth_replicate ones bit_minus_1_iff)
        (simp add: possible_bit_word)
  qed
  then have "filter (bit_at ?s) [0..<unat n] = [0..<unat n]"
    by (simp add: filter_id_conv)
  with c show ?thesis
    by (simp add: count_covered)
qed

lemma count_wraps:
  "count \<lparr>num_bits = 2 ^ 32, data = replicate (2 ^ 29) 255\<rparr> = Inr 0"
proof -
  have "unat (2 ^ 32 :: size_t) \<le> 8 * 2 ^ 29"
    by simp
  then have "count \<lparr>num_bits = 2 ^ 32, data = replicate (2 ^ 29) 255\<rparr>
      = Inr (of_nat (unat (2 ^ 32 :: size_t)))"
    by (rule count_all_ones)
  also have "(of_nat (unat (2 ^ 32 :: size_t)) :: uint32_t) = 0"
    by simp
  finally show ?thesis .
qed

section \<open>Zeroed storage\<close>

lemma reset_zero:
  "data (reset s) = replicate (length (data s)) 0 \<and> num_bits (reset s) = num_bits s"
  by (simp add: reset_def fill_n_def)

lemma reset_covered:
  assumes "storage_covers_bits s"
  shows "count (reset s) = Inr 0" and "i < num_bits s \<Longrightarrow> get (reset s) i = Inr False"
proof -
  have c: "storage_covers_bits (reset s)"
    using assms by (simp add: storage_covers_bits_def reset_zero)
  have z: "\<not> bit_at (reset s) j" if "j < unat (num_bits s)" for j
  proof -
    from that assms have "j div 8 < length (data s)"
      by (simp add: storage_covers_bits_def less_mult_imp_div_less mult.commute)
    then show ?thesis
      by (simp add: bit_at_def reset_zero)
  qed
  then have "filter (bit_at (reset s)) [0..<unat (num_bits (reset s))] = []"
    by (simp add: filter_empty_conv reset_zero)
  with c show "count (reset s) = Inr 0"
    by (simp add: count_covered)
  show "get (reset s) i = Inr False" if "i < num_bits s"
    using that c z [of "unat i"] by (simp add: get_covered reset_zero word_less_nat_alt)
qed

lemma construct_zero_filled:
  "data (dynamic_bitset nbits) = replicate (unat (num_words nbits)) 0"
  by (simp add: dynamic_bitset_def vector_resize_def fill_n_def)

lemma construct_get_in_storage:
  "unat pos div 8 < unat (num_words nbits) \<Longrightarrow> get (dynamic_bitset nbits) pos = Inr False"
  by (simp add: get_eq construct_zero_filled)

lemma construct_covers:
  "storage_covers_bits (dynamic_bitset nbits) \<longleftrightarrow> nbits \<le> 8 \<or> nbits mod 8 = 0"
proof -
  have n: "num_bits (dynamic_bitset nbits) = nbits"
    by (simp add: dynamic_bitset_def Let_def)
  have "m \<le> 8 * (if m < 8 then 1 else 1 + (m - 8) div 8) \<longleftrightarrow> m \<le> 8 \<or> m mod 8 = 0"
    for m :: nat
    by presburger
  then have "unat nbits \<le> 8 * number_of_bytes_needed (unat nbits)
      \<longleftrightarrow> unat nbits \<le> 8 \<or> unat nbits mod 8 = 0"
    unfolding number_of_bytes_needed_def .
  moreover have "nbits mod 8 = 0 \<longleftrightarrow> unat nbits mod 8 = 0"
  proof -
    have "unat (nbits mod 8) = unat nbits mod 8"
      by (simp add: unat_mod)
    then show ?thesis
      by (metis unat_eq_0)
  qed
  moreover have "nbits \<le> 8 \<longleftrightarrow> unat nbits \<le> 8"
    by (simp add: word_le_nat_alt)
  ultimately show ?thesis
    by (simp add: storage_covers_bits_def n construct_zero_filled unat_num_words)
qed

section \<open>Bits without storage\<close>

text \<open>
  The constructor leaves some positions below \<open>_num_bits\<close> without a byte whenever
  \<open>nbits\<close> is above 8 and not a multiple of 8 (\<open>construct_covers\<close>). The next four
  theorems evaluate the code on the smallest such bitset, \<open>dynamic_bitset(9)\<close>.
\<close>

text \<open>
  Claim C5. The claim says that after \<open>dynamic_bitset(n)\<close> every position below \<open>n\<close>
  reads false without failing. With \<open>n = 9\<close> the storage is one byte and position 8
  has byte index 1: the read is out of bounds. (Every position that has a byte reads
  false: \<open>construct_get_in_storage\<close>.)
\<close>

theorem construct_get_past_storage:
  "length (data (dynamic_bitset 9)) = 1 \<and> get (dynamic_bitset 9) 8 = Inl UndefinedBehaviour"
  by (simp add: get_eq dynamic_bitset_def num_words_def vector_resize_def fill_n_def)

text \<open>
  Claim C4. The claim says that \<open>count()\<close> returns the number of true positions below
  \<open>_num_bits\<close> in every state. On \<open>dynamic_bitset(9)\<close> the loop reaches \<open>i = 8\<close> and reads
  out of bounds instead of returning 0. (Where the storage covers the bits the count is
  right up to the width of the counter: \<open>count_covered\<close>, \<open>count_wraps\<close>.)
\<close>

theorem count_reads_past_storage:
  "count (dynamic_bitset 9) = Inl UndefinedBehaviour"
  by code_simp

text \<open>
  Claim C6. The claim says that \<open>to_string()\<close> returns \<open>_num_bits\<close> characters in every
  state. On \<open>dynamic_bitset(9)\<close> its first read, of position 8, is out of bounds; with 4
  bits, bits 0 and 2 set, the result is the string of the claim. (Where the storage
  covers the bits the string is the one of the claim: \<open>to_string_covered\<close>.)
\<close>

theorem to_string_reads_past_storage:
  "to_string (dynamic_bitset 9) = Inl UndefinedBehaviour
   \<and> (case set_bs (dynamic_bitset 4) 0 True of
          Inl e \<Rightarrow> Inl e
        | Inr s1 \<Rightarrow> (case set_bs s1 2 True of Inl e \<Rightarrow> Inl e | Inr s2 \<Rightarrow> to_string s2))
       = Inr ''0101''"
  by code_simp

text \<open>
  Claim C7. The claim says that after \<open>reset()\<close> \<open>count()\<close> returns 0 and every position
  below \<open>_num_bits\<close> reads false. \<open>reset\<close> keeps the one byte of \<open>dynamic_bitset(9)\<close>, so
  position 8 and \<open>count()\<close> are out of bounds as before. (The bytes are all zero and
  \<open>_num_bits\<close> is kept in every state, \<open>reset_zero\<close>; where the storage covers the bits
  the rest of the claim holds too, \<open>reset_covered\<close>.)
\<close>

theorem reset_reads_past_storage:
  "data (reset (dynamic_bitset 9)) = [0] \<and> num_bits (reset (dynamic_bitset 9)) = 9
   \<and> get (reset (dynamic_bitset 9)) 8 = Inl UndefinedBehaviour
   \<and> count (reset (dynamic_bitset 9)) = Inl UndefinedBehaviour"
  by code_simp

end
